theory Spec2Isabelle
  imports Main "HOL-Library.Word"
begin

section \<open>SecureRoll: an encrypted-points dice game\<close>

text \<open>
  A shallow embedding of \<^verbatim>\<open>contracts/SecureRoll.sol\<close>. Solidity's \<^verbatim>\<open>uint256\<close>,
  \<^verbatim>\<open>uint64\<close> and \<^verbatim>\<open>uint8\<close> are words of that width; an address is a 160-bit word.
  A \<^verbatim>\<open>require\<close> that fails, a checked arithmetic operation that overflows and an
  encrypted input whose proof is rejected all revert the transaction: a function body
  returns \<open>Inl\<close> of the error, and \<open>exec\<close> keeps the state of before the call.
\<close>

subsection \<open>Values, errors, events\<close>

type_synonym address = "160 word"
type_synonym uint256 = "256 word"
type_synonym uint64 = "64 word"
type_synonym uint8 = "8 word"

datatype error =
    InsufficientPayment    \<comment> \<open>\<^verbatim>\<open>require(pointsToAdd > 0, "Insufficient ETH")\<close>\<close>
  | ActiveRoundExists      \<comment> \<open>\<^verbatim>\<open>require(!_hasActiveRound[msg.sender], "Active round exists")\<close>\<close>
  | NoActiveRound          \<comment> \<open>\<^verbatim>\<open>require(_hasActiveRound[msg.sender], "No active round")\<close>\<close>
  | InvalidProof           \<comment> \<open>\<^verbatim>\<open>FHE.fromExternal\<close> rejects the input proof\<close>
  | ArithmeticOverflow     \<comment> \<open>Solidity 0.8 checked arithmetic, \<^verbatim>\<open>Panic(0x11)\<close>\<close>

text \<open>
  An encrypted value is a handle: an identifier, and the plaintext it decrypts to. The
  contract never reads \<open>clear\<close>; only the operations of the confidential value store do.
\<close>

datatype 'a enc = Enc (hid: nat) (clear: 'a)

type_synonym ebool = "bool enc"
type_synonym euint8 = "uint8 enc"
type_synonym euint64 = "uint64 enc"

datatype principal = Self | Player address

datatype event =
    PointsPurchased address uint256 uint64
  | GameStarted address euint8
  | GuessSubmitted address euint64

subsection \<open>The confidential value store and the access grant registry\<close>

record coprocessor =
  nextHandle :: nat
  acl :: "(nat \<times> principal) set"

text \<open>
  Modelled from the spec: the FHE library (\<^verbatim>\<open>@fhevm/solidity/lib/FHE.sol\<close>) is imported by
  the contract and is not part of the repository. Every operation returns a new immutable
  handle; the plaintext of the result is the operation on the plaintexts, at the width of
  the handle (8 or 64 bits, so addition is modulo \<open>2 ^ 8\<close> and \<open>2 ^ 64\<close>).
\<close>

definition fresh :: "'a \<Rightarrow> coprocessor \<Rightarrow> 'a enc \<times> coprocessor" where
  "fresh v c = (Enc (nextHandle c) v, c\<lparr>nextHandle := Suc (nextHandle c)\<rparr>)"

text \<open>Modelled from the spec: lifting a known constant into the encrypted domain.\<close>

definition FHE_asEuint8 :: "uint8 \<Rightarrow> coprocessor \<Rightarrow> euint8 \<times> coprocessor" where
  "FHE_asEuint8 v c = fresh v c"

definition FHE_asEuint64 :: "uint64 \<Rightarrow> coprocessor \<Rightarrow> euint64 \<times> coprocessor" where
  "FHE_asEuint64 v c = fresh v c"

text \<open>Modelled from the spec: homomorphic \<open>add\<close> of two encrypted 64-bit values.\<close>

definition FHE_add64 :: "euint64 \<Rightarrow> euint64 \<Rightarrow> coprocessor \<Rightarrow> euint64 \<times> coprocessor" where
  "FHE_add64 a b c = fresh (clear a + clear b) c"

text \<open>Modelled from the spec: \<open>add\<close> and \<open>remainder\<close> of an encrypted byte and a plain byte.\<close>

definition FHE_add8 :: "euint8 \<Rightarrow> uint8 \<Rightarrow> coprocessor \<Rightarrow> euint8 \<times> coprocessor" where
  "FHE_add8 a b c = fresh (clear a + b) c"

definition FHE_rem :: "euint8 \<Rightarrow> uint8 \<Rightarrow> coprocessor \<Rightarrow> euint8 \<times> coprocessor" where
  "FHE_rem a b c = fresh (clear a mod b) c"

text \<open>Modelled from the spec: \<open>greaterThan\<close>, \<open>equals\<close> (unsigned) and \<open>select(cond, a, b)\<close>.\<close>

definition FHE_gt :: "euint8 \<Rightarrow> euint8 \<Rightarrow> coprocessor \<Rightarrow> ebool \<times> coprocessor" where
  "FHE_gt a b c = fresh (clear b < clear a) c"

definition FHE_eq :: "euint8 \<Rightarrow> euint8 \<Rightarrow> coprocessor \<Rightarrow> ebool \<times> coprocessor" where
  "FHE_eq a b c = fresh (clear a = clear b) c"

definition FHE_select :: "ebool \<Rightarrow> 'a enc \<Rightarrow> 'a enc \<Rightarrow> coprocessor \<Rightarrow> 'a enc \<times> coprocessor" where
  "FHE_select ctl a b c = fresh (if clear ctl then clear a else clear b) c"

text \<open>
  Modelled from the spec: the randomness source supplies one confidential byte in
  \<open>[0,255]\<close>. The byte drawn is an argument of the call.
\<close>

definition FHE_randEuint8 :: "uint8 \<Rightarrow> coprocessor \<Rightarrow> euint8 \<times> coprocessor" where
  "FHE_randEuint8 byte c = fresh byte c"

text \<open>
  Modelled from the spec: ingestion either yields a usable encrypted byte or the whole
  operation fails. The external input is the byte the client encrypted; the proof is
  represented by whether it validates for this caller and this contract.
\<close>

definition FHE_fromExternal ::
    "uint8 \<Rightarrow> bool \<Rightarrow> coprocessor \<Rightarrow> error + (euint8 \<times> coprocessor)" where
  "FHE_fromExternal encryptedGuess inputProof c =
     (if inputProof then Inr (fresh encryptedGuess c) else Inl InvalidProof)"

text \<open>Modelled from the spec: \<open>grant(handle, principal)\<close> is an idempotent union-insert.\<close>

definition FHE_allow :: "'a enc \<Rightarrow> principal \<Rightarrow> coprocessor \<Rightarrow> coprocessor" where
  "FHE_allow h p c = c\<lparr>acl := insert (hid h, p) (acl c)\<rparr>"

definition FHE_allowThis :: "'a enc \<Rightarrow> coprocessor \<Rightarrow> coprocessor" where
  "FHE_allowThis h c = FHE_allow h Self c"

definition isGranted :: "coprocessor \<Rightarrow> 'a enc \<Rightarrow> principal \<Rightarrow> bool" where
  "isGranted c h p \<longleftrightarrow> (hid h, p) \<in> acl c"

subsection \<open>Contract storage\<close>

record state =
  st_points :: "address \<Rightarrow> euint64"          \<comment> \<open>\<^verbatim>\<open>_points\<close>\<close>
  st_lastDice :: "address \<Rightarrow> euint8"         \<comment> \<open>\<^verbatim>\<open>_lastDice\<close>\<close>
  st_lastWin :: "address \<Rightarrow> ebool"           \<comment> \<open>\<^verbatim>\<open>_lastWin\<close>\<close>
  st_lastReward :: "address \<Rightarrow> euint64"      \<comment> \<open>\<^verbatim>\<open>_lastReward\<close>\<close>
  st_hasActiveRound :: "address \<Rightarrow> bool"     \<comment> \<open>\<^verbatim>\<open>_hasActiveRound\<close>\<close>
  fhe :: coprocessor
  events :: "event list"

text \<open>
  A fresh deployment: every mapping holds its default (the uninitialised handle 0, which
  stands for an encrypted 0, and \<open>False\<close>), no grant, no event.
\<close>

definition init :: state where
  "init = \<lparr> st_points = (\<lambda>_. Enc 0 0), st_lastDice = (\<lambda>_. Enc 0 0),
            st_lastWin = (\<lambda>_. Enc 0 False), st_lastReward = (\<lambda>_. Enc 0 0),
            st_hasActiveRound = (\<lambda>_. False),
            fhe = \<lparr> nextHandle = 1, acl = {} \<rparr>, events = [] \<rparr>"

definition POINTS_PER_ETH :: uint64 where
  "POINTS_PER_ETH = 100000"

definition WIN_REWARD :: uint64 where
  "WIN_REWARD = 10000"

definition ether :: uint256 where
  "ether = 1000000000000000000"

subsection \<open>The contract's functions\<close>

text \<open>Checked multiplication of two \<^verbatim>\<open>uint256\<close>, as Solidity 0.8 compiles \<^verbatim>\<open>*\<close>.\<close>

definition checked_mul :: "uint256 \<Rightarrow> uint256 \<Rightarrow> error + uint256" where
  "checked_mul a b =
     (if unat a * unat b < 2 ^ 256 then Inr (a * b) else Inl ArithmeticOverflow)"

text \<open>
  \<^verbatim>\<open>return uint64((weiAmount * POINTS_PER_ETH) / 1 ether);\<close>
  The constant is widened to \<^verbatim>\<open>uint256\<close>, the product is checked, the division is
  unsigned, and the explicit conversion to \<^verbatim>\<open>uint64\<close> keeps the low 64 bits.
\<close>

definition quotePoints :: "uint256 \<Rightarrow> error + uint64" where
  "quotePoints weiAmount =
     (case checked_mul weiAmount (ucast POINTS_PER_ETH) of
        Inl e \<Rightarrow> Inl e
      | Inr product \<Rightarrow> Inr (ucast (product div ether)))"

definition buyPoints :: "address \<Rightarrow> uint256 \<Rightarrow> state \<Rightarrow> error + state" where
  "buyPoints sender val s =
     (case quotePoints val of
        Inl e \<Rightarrow> Inl e
      | Inr pointsToAdd \<Rightarrow>
          if \<not> 0 < pointsToAdd then Inl InsufficientPayment
          else
            let (encryptedToAdd, c1) = FHE_asEuint64 pointsToAdd (fhe s);
                (total, c2) = FHE_add64 (st_points s sender) encryptedToAdd c1;
                s1 = s\<lparr>st_points := (st_points s)(sender := total), fhe := c2\<rparr>;
                s2 = s1\<lparr>fhe := FHE_allowThis (st_points s1 sender) (fhe s1)\<rparr>;
                s3 = s2\<lparr>fhe := FHE_allow (st_points s2 sender) (Player sender) (fhe s2)\<rparr>
            in Inr (s3\<lparr>events := events s3 @ [PointsPurchased sender val pointsToAdd]\<rparr>))"

definition startGame :: "address \<Rightarrow> uint8 \<Rightarrow> state \<Rightarrow> error + state" where
  "startGame sender byte s =
     (if st_hasActiveRound s sender then Inl ActiveRoundExists
      else
        let (roll0to255, c1) = FHE_randEuint8 byte (fhe s);
            (roll0to5, c2) = FHE_rem roll0to255 6 c1;
            (dice, c3) = FHE_add8 roll0to5 1 c2;
            s1 = s\<lparr>st_lastDice := (st_lastDice s)(sender := dice), fhe := c3\<rparr>;
            s2 = s1\<lparr>st_hasActiveRound := (st_hasActiveRound s1)(sender := True)\<rparr>;
            s3 = s2\<lparr>fhe := FHE_allowThis (st_lastDice s2 sender) (fhe s2)\<rparr>;
            s4 = s3\<lparr>fhe := FHE_allow (st_lastDice s3 sender) (Player sender) (fhe s3)\<rparr>
        in Inr (s4\<lparr>events := events s4 @ [GameStarted sender (st_lastDice s4 sender)]\<rparr>))"

definition submitGuess :: "address \<Rightarrow> uint8 \<Rightarrow> bool \<Rightarrow> state \<Rightarrow> error + state" where
  "submitGuess sender encryptedGuess inputProof s =
     (if \<not> st_hasActiveRound s sender then Inl NoActiveRound
      else
        case FHE_fromExternal encryptedGuess inputProof (fhe s) of
          Inl e \<Rightarrow> Inl e
        | Inr (guess, c0) \<Rightarrow>
            let dice = st_lastDice s sender;
                (three, c1) = FHE_asEuint8 3 c0;
                (diceIsBig, c2) = FHE_gt dice three c1;
                (one, c3) = FHE_asEuint8 1 c2;
                (two, c4) = FHE_asEuint8 2 c3;
                (expected, c5) = FHE_select diceIsBig one two c4;
                (win, c6) = FHE_eq guess expected c5;
                (prize, c7) = FHE_asEuint64 WIN_REWARD c6;
                (nothing, c8) = FHE_asEuint64 0 c7;
                (reward, c9) = FHE_select win prize nothing c8;
                (total, c10) = FHE_add64 (st_points s sender) reward c9;
                s1 = s\<lparr>st_points := (st_points s)(sender := total), fhe := c10\<rparr>;
                s2 = s1\<lparr>st_lastWin := (st_lastWin s1)(sender := win)\<rparr>;
                s3 = s2\<lparr>st_lastReward := (st_lastReward s2)(sender := reward)\<rparr>;
                s4 = s3\<lparr>st_hasActiveRound := (st_hasActiveRound s3)(sender := False)\<rparr>;
                s5 = s4\<lparr>fhe := FHE_allowThis (st_points s4 sender) (fhe s4)\<rparr>;
                s6 = s5\<lparr>fhe := FHE_allow (st_points s5 sender) (Player sender) (fhe s5)\<rparr>;
                s7 = s6\<lparr>fhe := FHE_allowThis (st_lastWin s6 sender) (fhe s6)\<rparr>;
                s8 = s7\<lparr>fhe := FHE_allow (st_lastWin s7 sender) (Player sender) (fhe s7)\<rparr>;
                s9 = s8\<lparr>fhe := FHE_allowThis (st_lastReward s8 sender) (fhe s8)\<rparr>;
                s10 = s9\<lparr>fhe := FHE_allow (st_lastReward s9 sender) (Player sender) (fhe s9)\<rparr>
            in Inr (s10\<lparr>events := events s10 @ [GuessSubmitted sender (st_lastReward s10 sender)]\<rparr>))"

text \<open>The read-only queries.\<close>

definition hasActiveRound :: "state \<Rightarrow> address \<Rightarrow> bool" where
  "hasActiveRound s player = st_hasActiveRound s player"

definition getEncryptedPoints :: "state \<Rightarrow> address \<Rightarrow> euint64" where
  "getEncryptedPoints s player = st_points s player"

definition getLastEncryptedDice :: "state \<Rightarrow> address \<Rightarrow> euint8" where
  "getLastEncryptedDice s player = st_lastDice s player"

definition getLastEncryptedWin :: "state \<Rightarrow> address \<Rightarrow> ebool" where
  "getLastEncryptedWin s player = st_lastWin s player"

definition getLastEncryptedReward :: "state \<Rightarrow> address \<Rightarrow> euint64" where
  "getLastEncryptedReward s player = st_lastReward s player"

subsection \<open>Transactions\<close>

text \<open>
  A transaction is one external call, with its sender and arguments (for \<open>StartGame\<close>,
  the byte the randomness source draws). A call that fails reverts: the state stays as
  it was. Transactions are serialised, so a history is a list of calls.
\<close>

datatype call =
    BuyPoints address uint256
  | StartGame address uint8
  | SubmitGuess address uint8 bool

fun body :: "call \<Rightarrow> state \<Rightarrow> error + state" where
  "body (BuyPoints sender val) s = buyPoints sender val s"
| "body (StartGame sender byte) s = startGame sender byte s"
| "body (SubmitGuess sender encryptedGuess inputProof) s =
     submitGuess sender encryptedGuess inputProof s"

definition exec :: "call \<Rightarrow> state \<Rightarrow> state" where
  "exec c s = (case body c s of Inl e \<Rightarrow> s | Inr s' \<Rightarrow> s')"

fun run :: "call list \<Rightarrow> state \<Rightarrow> state" where
  "run [] s = s"
| "run (c # cs) s = run cs (exec c s)"

inductive reachable :: "state \<Rightarrow> bool" where
  reachable_init: "reachable init"
| reachable_exec: "reachable s \<Longrightarrow> reachable (exec c s)"

subsection \<open>Rounds, read off the event log\<close>

text \<open>
  The contract emits \<open>GameStarted\<close> when a round opens and \<open>GuessSubmitted\<close> when it is
  resolved. The rounds a player has opened and resolved are counted in the log; a round
  is open when it has been opened and not yet resolved.
\<close>

fun opens :: "address \<Rightarrow> event \<Rightarrow> bool" where
  "opens p (GameStarted a h) = (a = p)"
| "opens p e = False"

fun resolves :: "address \<Rightarrow> event \<Rightarrow> bool" where
  "resolves p (GuessSubmitted a h) = (a = p)"
| "resolves p e = False"

definition rounds_opened :: "address \<Rightarrow> event list \<Rightarrow> nat" where
  "rounds_opened p evs = length (filter (opens p) evs)"

definition rounds_resolved :: "address \<Rightarrow> event list \<Rightarrow> nat" where
  "rounds_resolved p evs = length (filter (resolves p) evs)"

text \<open>
  The invariant of the round state machine: for every player, the rounds opened are the
  rounds resolved, plus one when a round is active.
\<close>

definition round_inv :: "state \<Rightarrow> bool" where
  "round_inv s \<longleftrightarrow>
     (\<forall>p. rounds_opened p (events s) =
            rounds_resolved p (events s) + (if st_hasActiveRound s p then 1 else 0))"

text \<open>Whether a call is a guess submission of the given player.\<close>

fun is_submit_of :: "address \<Rightarrow> call \<Rightarrow> bool" where
  "is_submit_of p (SubmitGuess sender g ok) = (sender = p)"
| "is_submit_of p c = False"

section \<open>Properties\<close>

subsection \<open>What each function does\<close>

lemmas FHE_defs = fresh_def FHE_asEuint8_def FHE_asEuint64_def FHE_add64_def FHE_add8_def
  FHE_rem_def FHE_gt_def FHE_eq_def FHE_select_def FHE_randEuint8_def FHE_fromExternal_def
  FHE_allow_def FHE_allowThis_def

lemma ucast_POINTS_PER_ETH: "unat (ucast POINTS_PER_ETH :: uint256) = 100000"
  by (simp add: POINTS_PER_ETH_def)

lemma unat_ether: "unat ether = 1000000000000000000"
  by (simp add: ether_def)

text \<open>The quote in terms of natural numbers: the floor of the quotient, cut to 64 bits.\<close>

lemma quotePoints_unat:
  "quotePoints w =
     (if unat w * 100000 < 2 ^ 256
      then Inr (word_of_nat (unat w * 100000 div 1000000000000000000))
      else Inl ArithmeticOverflow)"
proof (cases "unat w * 100000 < 2 ^ 256")
  case True
  then have m: "unat (w * ucast POINTS_PER_ETH) = unat w * 100000"
    by (simp add: unat_word_ariths ucast_POINTS_PER_ETH)
  have "unat (w * ucast POINTS_PER_ETH div ether) = unat w * 100000 div 1000000000000000000"
    by (simp add: unat_div m unat_ether)
  then have "(ucast (w * ucast POINTS_PER_ETH div ether) :: uint64)
               = word_of_nat (unat w * 100000 div 1000000000000000000)"
    using of_nat_unat [of "w * ucast POINTS_PER_ETH div ether", where ?'a = uint64] by simp
  with True show ?thesis
    by (simp add: quotePoints_def checked_mul_def ucast_POINTS_PER_ETH)
next
  case False
  then show ?thesis
    by (simp add: quotePoints_def checked_mul_def ucast_POINTS_PER_ETH)
qed

lemma submitGuess_no_round:
  "\<not> st_hasActiveRound s p \<Longrightarrow> submitGuess p g ok s = Inl NoActiveRound"
  by (simp add: submitGuess_def)

lemma submitGuess_bad_proof:
  "st_hasActiveRound s p \<Longrightarrow> submitGuess p g False s = Inl InvalidProof"
  by (simp add: submitGuess_def FHE_fromExternal_def)

lemma submitGuess_succeeds:
  "st_hasActiveRound s p \<Longrightarrow> \<exists>s'. submitGuess p g True s = Inr s'"
  by (simp add: submitGuess_def FHE_defs Let_def)

lemma submitGuess_Inr:
  assumes "submitGuess p g ok s = Inr s'"
  shows "st_hasActiveRound s p" and "ok"
    and "clear (st_lastWin s' p) = (g = (if 3 < clear (st_lastDice s p) then 1 else 2))"
    and "clear (st_lastReward s' p) = (if clear (st_lastWin s' p) then WIN_REWARD else 0)"
    and "clear (st_points s' p) = clear (st_points s p) + clear (st_lastReward s' p)"
    and "\<not> st_hasActiveRound s' p"
    and "st_lastDice s' = st_lastDice s"
    and "a \<noteq> p \<Longrightarrow> st_points s' a = st_points s a"
    and "a \<noteq> p \<Longrightarrow> st_hasActiveRound s' a = st_hasActiveRound s a"
    and "events s' = events s @ [GuessSubmitted p (st_lastReward s' p)]"
  using assms
  by (auto simp: submitGuess_def FHE_defs Let_def split: if_splits)

lemma startGame_active:
  "st_hasActiveRound s p \<Longrightarrow> startGame p b s = Inl ActiveRoundExists"
  by (simp add: startGame_def)

lemma startGame_succeeds:
  "\<not> st_hasActiveRound s p \<Longrightarrow> \<exists>s'. startGame p b s = Inr s'"
  by (simp add: startGame_def FHE_defs Let_def)

lemma startGame_Inr:
  assumes "startGame p b s = Inr s'"
  shows "\<not> st_hasActiveRound s p"
    and "clear (st_lastDice s' p) = b mod 6 + 1"
    and "st_hasActiveRound s' p"
    and "st_points s' = st_points s"
    and "a \<noteq> p \<Longrightarrow> st_hasActiveRound s' a = st_hasActiveRound s a"
    and "a \<noteq> p \<Longrightarrow> st_lastDice s' a = st_lastDice s a"
    and "events s' = events s @ [GameStarted p (st_lastDice s' p)]"
  using assms
  by (auto simp: startGame_def FHE_defs Let_def split: if_splits)

lemma buyPoints_Inr:
  assumes "buyPoints p v s = Inr s'"
  shows "\<exists>q. quotePoints v = Inr q \<and> 0 < q
           \<and> clear (st_points s' p) = clear (st_points s p) + q
           \<and> events s' = events s @ [PointsPurchased p v q]"
    and "a \<noteq> p \<Longrightarrow> st_points s' a = st_points s a"
    and "st_hasActiveRound s' = st_hasActiveRound s"
    and "st_lastDice s' = st_lastDice s"
  using assms
  by (auto simp: buyPoints_def FHE_defs Let_def split: if_splits sum.splits)

lemma buyPoints_succeeds:
  "quotePoints v = Inr q \<Longrightarrow> 0 < q \<Longrightarrow> \<exists>s'. buyPoints p v s = Inr s'"
  by (simp add: buyPoints_def FHE_defs Let_def)

lemma buyPoints_zero:
  "quotePoints v = Inr 0 \<Longrightarrow> buyPoints p v s = Inl InsufficientPayment"
  by (simp add: buyPoints_def)

text \<open>The definitions that evaluate a concrete history.\<close>

lemmas run_defs = exec_def startGame_def submitGuess_def buyPoints_def quotePoints_def
  checked_mul_def POINTS_PER_ETH_def ether_def WIN_REWARD_def init_def FHE_defs Let_def
  hasActiveRound_def

lemma submitGuess_Inl:
  assumes "submitGuess p g ok s = Inl e"
  shows "(\<not> st_hasActiveRound s p \<and> e = NoActiveRound)
       \<or> (st_hasActiveRound s p \<and> \<not> ok \<and> e = InvalidProof)"
proof (cases "st_hasActiveRound s p")
  case False
  with assms show ?thesis by (simp add: submitGuess_no_round)
next
  case True
  show ?thesis
  proof (cases ok)
    case True
    with \<open>st_hasActiveRound s p\<close> assms submitGuess_succeeds [of s p g] show ?thesis
      by auto
  next
    case False
    with \<open>st_hasActiveRound s p\<close> assms show ?thesis
      by (simp add: submitGuess_bad_proof)
  qed
qed

lemma dice_unat: "unat (byte mod 6 + 1 :: uint8) = unat byte mod 6 + 1"
proof -
  have r: "unat (byte mod 6) = unat byte mod 6"
    by (simp add: unat_mod)
  have "unat byte mod 6 < 6" by simp
  then have "unat byte mod 6 + 1 < 256" by arith
  with r show ?thesis
    by (simp add: unat_word_ariths)
qed

lemma quote_ether: "quotePoints 1000000000000000000 = Inr 100000"
  by (simp add: quotePoints_def checked_mul_def POINTS_PER_ETH_def ether_def)

lemma quote_small: "quotePoints 9999999999999 = Inr 0"
  by (simp add: quotePoints_def checked_mul_def POINTS_PER_ETH_def ether_def)

subsection \<open>Arithmetic of the quote and of the balance\<close>

lemma unat_word_of_nat64: "unat (word_of_nat n :: uint64) = n mod 2 ^ 64"
  by (simp add: unat_of_nat)

lemma quotePoints_Inr_unat:
  assumes "unat w * 100000 < 2 ^ 256"
  shows "\<exists>q. quotePoints w = Inr q
          \<and> unat q = (unat w * 100000 div 1000000000000000000) mod 2 ^ 64"
proof -
  have "unat (word_of_nat (unat w * 100000 div 1000000000000000000) :: uint64)
          = (unat w * 100000 div 1000000000000000000) mod 2 ^ 64"
    by (rule unat_word_of_nat64)
  with assms show ?thesis
    by (simp only: quotePoints_unat if_True) blast
qed

lemma floor_double_nat:
  fixes n :: nat
  shows "2 * n * 100000 div 1000000000000000000 = 2 * (n * 100000 div 1000000000000000000)
       \<or> 2 * n * 100000 div 1000000000000000000
            = 2 * (n * 100000 div 1000000000000000000) + 1"
  by arith

lemma floor_le_double:
  fixes n :: nat
  shows "n * 100000 div 1000000000000000000 \<le> 2 * n * 100000 div 1000000000000000000"
  by arith

lemma floor_double_exact:
  fixes n :: nat
  assumes "10000000000000 dvd n"
  shows "2 * n * 100000 div 1000000000000000000 = 2 * (n * 100000 div 1000000000000000000)"
proof -
  from assms obtain k where "n = 10000000000000 * k" by (rule dvdE)
  then show ?thesis by simp
qed

lemma word_add_no_wrap:
  fixes x y :: uint64
  assumes "unat x + unat y < 2 ^ 64"
  shows "unat x \<le> unat (x + y)"
proof -
  from assms have "unat (x + y) = unat x + unat y"
    by (simp add: unat_word_ariths)
  then show ?thesis by simp
qed

lemma unat_add64:
  fixes x y :: uint64
  shows "unat (x + y) = (unat x + unat y) mod 2 ^ 64"
  by (simp add: unat_word_ariths)

lemma unat_add64_exact:
  fixes x y :: uint64
  assumes "unat x + unat y < 2 ^ 64"
  shows "unat (x + y) = unat x + unat y"
  using assms by (simp add: unat_word_ariths)

subsection \<open>The round invariant\<close>

lemma rounds_append:
  "rounds_opened p (evs @ [e]) = rounds_opened p evs + (if opens p e then 1 else 0)"
  "rounds_resolved p (evs @ [e]) = rounds_resolved p evs + (if resolves p e then 1 else 0)"
  by (simp_all add: rounds_opened_def rounds_resolved_def)

lemma round_inv_init: "round_inv init"
  by (simp add: round_inv_def init_def rounds_opened_def rounds_resolved_def)

lemma round_inv_body:
  assumes "round_inv s" and "body c s = Inr s'"
  shows "round_inv s'"
proof (cases c)
  case (BuyPoints p v)
  with assms(2) have b: "buyPoints p v s = Inr s'" by simp
  from buyPoints_Inr(1) [OF b] obtain q where
    "events s' = events s @ [PointsPurchased p v q]" by blast
  with assms(1) buyPoints_Inr(3) [OF b] show ?thesis
    by (simp add: round_inv_def rounds_append)
next
  case (StartGame p b)
  with assms(2) have g: "startGame p b s = Inr s'" by simp
  note f = startGame_Inr [OF g]
  show ?thesis
    unfolding round_inv_def
  proof
    fix a
    show "rounds_opened a (events s') =
            rounds_resolved a (events s') + (if st_hasActiveRound s' a then 1 else 0)"
    proof (cases "a = p")
      case True
      with assms(1) f(1,3,7) show ?thesis
        by (simp add: round_inv_def rounds_append)
    next
      case False
      with assms(1) f(5) [of a] f(7) show ?thesis
        by (simp add: round_inv_def rounds_append)
    qed
  qed
next
  case (SubmitGuess p g ok)
  with assms(2) have g: "submitGuess p g ok s = Inr s'" by simp
  note f = submitGuess_Inr [OF g]
  show ?thesis
    unfolding round_inv_def
  proof
    fix a
    show "rounds_opened a (events s') =
            rounds_resolved a (events s') + (if st_hasActiveRound s' a then 1 else 0)"
    proof (cases "a = p")
      case True
      with assms(1) f(1,6,10) show ?thesis
        by (simp add: round_inv_def rounds_append)
    next
      case False
      with assms(1) f(9) [of a] f(10) show ?thesis
        by (simp add: round_inv_def rounds_append)
    qed
  qed
qed

lemma round_inv_exec: "round_inv s \<Longrightarrow> round_inv (exec c s)"
  by (auto simp: exec_def round_inv_body split: sum.splits)

lemma reachable_round_inv: "reachable s \<Longrightarrow> round_inv s"
  by (induction rule: reachable.induct) (simp_all add: round_inv_init round_inv_exec)

lemma active_kept:
  assumes "st_hasActiveRound s p" and "\<not> is_submit_of p c"
  shows "st_hasActiveRound (exec c s) p"
proof (cases "body c s")
  case (Inl e)
  with assms(1) show ?thesis by (simp add: exec_def)
next
  case (Inr s')
  then have e: "exec c s = s'" by (simp add: exec_def)
  show ?thesis
  proof (cases c)
    case (BuyPoints a v)
    with Inr have "buyPoints a v s = Inr s'" by simp
    from buyPoints_Inr(3) [OF this] assms(1) e show ?thesis by simp
  next
    case (StartGame a b)
    with Inr have g: "startGame a b s = Inr s'" by simp
    from startGame_Inr(1) [OF g] assms(1) have "p \<noteq> a" by auto
    from startGame_Inr(5) [OF g this] assms(1) e show ?thesis by simp
  next
    case (SubmitGuess a g ok)
    with assms(2) have "p \<noteq> a" by auto
    from SubmitGuess Inr have "submitGuess a g ok s = Inr s'" by simp
    from submitGuess_Inr(9) [OF this \<open>p \<noteq> a\<close>] assms(1) e show ?thesis by simp
  qed
qed

lemma active_kept_run:
  "st_hasActiveRound s p \<Longrightarrow> \<forall>c\<in>set cs. \<not> is_submit_of p c \<Longrightarrow> st_hasActiveRound (run cs s) p"
  by (induction cs arbitrary: s) (simp_all add: active_kept)

lemma startGame_Inl:
  "startGame p b s = Inl e \<Longrightarrow> st_hasActiveRound s p \<and> e = ActiveRoundExists"
  using startGame_succeeds [of s p b] startGame_active [of s p b] by (cases "st_hasActiveRound s p") auto

subsection \<open>Resolving a guess\<close>

text \<open>
  Claim C1, as stated: a successful \<open>submitGuess\<close> increases the balance by exactly the
  reward. It does not always: the balance is a 64-bit value. After a purchase that
  brings the balance to \<open>2 ^ 64 - 10000\<close>, a winning guess (reward 10000) leaves the
  decrypted balance at 0.
\<close>

theorem submitGuess_balance_counterexample:
  "hasActiveRound
     (run [BuyPoints 7 184467440737095416160000000000000, StartGame 7 0] init) 7
   \<and> unat (clear (st_points
        (run [BuyPoints 7 184467440737095416160000000000000, StartGame 7 0] init) 7))
       = 18446744073709541616
   \<and> submitGuess 7 2 True
        (run [BuyPoints 7 184467440737095416160000000000000, StartGame 7 0] init)
       = Inr (exec (SubmitGuess 7 2 True)
           (run [BuyPoints 7 184467440737095416160000000000000, StartGame 7 0] init))
   \<and> clear (st_lastWin (exec (SubmitGuess 7 2 True)
        (run [BuyPoints 7 184467440737095416160000000000000, StartGame 7 0] init)) 7)
   \<and> unat (clear (st_lastReward (exec (SubmitGuess 7 2 True)
        (run [BuyPoints 7 184467440737095416160000000000000, StartGame 7 0] init)) 7))
       = 10000
   \<and> unat (clear (st_points (exec (SubmitGuess 7 2 True)
        (run [BuyPoints 7 184467440737095416160000000000000, StartGame 7 0] init)) 7))
       = 0"
  by (simp add: run_defs)

text \<open>
  Claim C1, amended. When the caller has an active round and the input proof validates,
  \<open>submitGuess\<close> succeeds; the stored win flag is: the guess equals 1 if the stored dice
  is greater than 3, else the guess equals 2; the stored reward is 10000 on a win and 0
  otherwise; the new balance is the old balance plus the reward modulo \<open>2 ^ 64\<close>, so it
  increases by exactly the reward whenever the old balance plus the reward is below
  \<open>2 ^ 64\<close>, and it is unchanged on a wrong guess; and the round is no longer active.
\<close>

theorem submitGuess_resolves_round:
  assumes "hasActiveRound s p" and "ok"
  shows "\<exists>s'. submitGuess p g ok s = Inr s'
       \<and> clear (st_lastWin s' p) = (g = (if 3 < clear (st_lastDice s p) then 1 else 2))
       \<and> unat (clear (st_lastReward s' p)) = (if clear (st_lastWin s' p) then 10000 else 0)
       \<and> unat (clear (st_points s' p)) =
           (unat (clear (st_points s p)) + unat (clear (st_lastReward s' p))) mod 2 ^ 64
       \<and> (unat (clear (st_points s p)) + unat (clear (st_lastReward s' p)) < 2 ^ 64 \<longrightarrow>
            unat (clear (st_points s' p)) =
              unat (clear (st_points s p)) + unat (clear (st_lastReward s' p)))
       \<and> (\<not> clear (st_lastWin s' p) \<longrightarrow>
            unat (clear (st_points s' p)) = unat (clear (st_points s p)))
       \<and> \<not> hasActiveRound s' p"
proof -
  from assms obtain s' where r: "submitGuess p g ok s = Inr s'"
    using submitGuess_succeeds [of s p g] by (auto simp: hasActiveRound_def)
  note f = submitGuess_Inr [OF r]
  have m: "unat (clear (st_points s' p)) =
           (unat (clear (st_points s p)) + unat (clear (st_lastReward s' p))) mod 2 ^ 64"
    by (simp only: f(5) unat_add64)
  have x: "unat (clear (st_points s p)) + unat (clear (st_lastReward s' p)) < 2 ^ 64 \<longrightarrow>
            unat (clear (st_points s' p)) =
              unat (clear (st_points s p)) + unat (clear (st_lastReward s' p))"
    by (simp only: f(5)) (blast intro: unat_add64_exact)
  have w: "unat (clear (st_lastReward s' p)) = (if clear (st_lastWin s' p) then 10000 else 0)"
    by (simp add: f(4) WIN_REWARD_def)
  have u: "\<not> clear (st_lastWin s' p) \<longrightarrow>
            unat (clear (st_points s' p)) = unat (clear (st_points s p))"
    using f(4) f(5) by simp
  from r f(3) f(6) m x w u show ?thesis
    by (simp add: hasActiveRound_def)
qed


theorem submitGuess_resolves_round_witness:
  "hasActiveRound (exec (StartGame 7 3) init) 7
   \<and> unat (clear (st_points (exec (StartGame 7 3) init) 7)) + 10000 < 2 ^ 64
   \<and> (\<exists>s'. submitGuess 7 1 True (exec (StartGame 7 3) init) = Inr s'
        \<and> clear (st_lastWin s' 7) \<and> unat (clear (st_lastReward s' 7)) = 10000
        \<and> unat (clear (st_points s' 7)) = 10000 \<and> \<not> hasActiveRound s' 7)"
proof -
  have a: "hasActiveRound (exec (StartGame 7 3) init) 7"
    by (simp add: run_defs)
  have d: "clear (st_lastDice (exec (StartGame 7 3) init) 7) = 4"
    by (simp add: run_defs)
  have z: "unat (clear (st_points (exec (StartGame 7 3) init) 7)) = 0"
    by (simp add: run_defs)
  from submitGuess_resolves_round [OF a, of True 1] a d z show ?thesis
    by auto
qed

text \<open>
  Claim C2. \<open>submitGuess\<close> fails with \<open>NoActiveRound\<close> when the caller has no active
  round, and with \<open>InvalidProof\<close> when the round is active and the proof does not
  validate (the round is checked first); these are its only failures, and a failing call
  leaves the whole state, so balances, round flags, dice and grants, as it was.
\<close>

theorem submitGuess_failure_atomic:
  "(\<not> hasActiveRound s p \<longrightarrow> submitGuess p g ok s = Inl NoActiveRound)
   \<and> (hasActiveRound s p \<and> \<not> ok \<longrightarrow> submitGuess p g ok s = Inl InvalidProof)
   \<and> (\<forall>e. submitGuess p g ok s = Inl e \<longrightarrow>
         (e = NoActiveRound \<or> e = InvalidProof)
         \<and> exec (SubmitGuess p g ok) s = s
         \<and> st_points (exec (SubmitGuess p g ok) s) = st_points s
         \<and> st_hasActiveRound (exec (SubmitGuess p g ok) s) = st_hasActiveRound s
         \<and> st_lastDice (exec (SubmitGuess p g ok) s) = st_lastDice s
         \<and> acl (fhe (exec (SubmitGuess p g ok) s)) = acl (fhe s))"
proof (intro conjI allI impI)
  fix e assume "submitGuess p g ok s = Inl e"
  then show "e = NoActiveRound \<or> e = InvalidProof"
    using submitGuess_Inl by blast
qed (auto simp: submitGuess_no_round submitGuess_bad_proof hasActiveRound_def exec_def)

theorem submitGuess_failure_atomic_witness:
  "\<not> hasActiveRound init 7 \<and> submitGuess 7 1 True init = Inl NoActiveRound
   \<and> exec (SubmitGuess 7 1 True) init = init
   \<and> hasActiveRound (exec (StartGame 7 3) init) 7
   \<and> submitGuess 7 1 False (exec (StartGame 7 3) init) = Inl InvalidProof
   \<and> exec (SubmitGuess 7 1 False) (exec (StartGame 7 3) init) = exec (StartGame 7 3) init"
proof -
  have n: "\<not> hasActiveRound init 7"
    by (simp add: hasActiveRound_def init_def)
  have a: "hasActiveRound (exec (StartGame 7 3) init) 7"
    by (simp add: run_defs)
  from submitGuess_failure_atomic [of init 7 1 True]
       submitGuess_failure_atomic [of "exec (StartGame 7 3) init" 7 1 False] n a
  show ?thesis by simp
qed

text \<open>
  Claim C8. In an active round, a validated guess that is neither 1 nor 2 never wins:
  the win flag is false, the reward is 0 and the balance keeps its value.
\<close>

theorem submitGuess_other_guess_loses:
  assumes "hasActiveRound s p" and "ok" and "g \<noteq> 1" and "g \<noteq> 2"
  shows "\<exists>s'. submitGuess p g ok s = Inr s'
       \<and> \<not> clear (st_lastWin s' p)
       \<and> clear (st_lastReward s' p) = 0
       \<and> clear (st_points s' p) = clear (st_points s p)"
proof -
  from assms obtain s' where ok: "submitGuess p g ok s = Inr s'"
    using submitGuess_succeeds [of s p g] by (auto simp: hasActiveRound_def)
  note f = submitGuess_Inr [OF ok]
  from assms(3,4) f(3) have "\<not> clear (st_lastWin s' p)" by auto
  with ok f(4,5) show ?thesis by simp
qed

theorem submitGuess_other_guess_loses_witness:
  "hasActiveRound (exec (StartGame 7 3) init) 7 \<and> (3::uint8) \<noteq> 1 \<and> (3::uint8) \<noteq> 2
   \<and> (\<exists>s'. submitGuess 7 3 True (exec (StartGame 7 3) init) = Inr s'
        \<and> \<not> clear (st_lastWin s' 7) \<and> clear (st_lastReward s' 7) = 0)"
proof -
  have a: "hasActiveRound (exec (StartGame 7 3) init) 7"
    by (simp add: run_defs)
  from submitGuess_other_guess_loses [OF a, of True 3] a show ?thesis
    by auto
qed

subsection \<open>Opening a round\<close>

text \<open>
  Claim C4. A successful \<open>startGame\<close> stores the dice \<open>byte mod 6 + 1\<close> for the byte
  drawn; for every byte this value is one of 1, 2, 3, 4, 5, 6.
\<close>

theorem startGame_dice_range:
  assumes "\<not> hasActiveRound s p"
  shows "\<exists>s'. startGame p byte s = Inr s'
       \<and> clear (st_lastDice s' p) = byte mod 6 + 1
       \<and> unat (clear (st_lastDice s' p)) = unat byte mod 6 + 1
       \<and> unat (clear (st_lastDice s' p)) \<in> {1, 2, 3, 4, 5, 6}
       \<and> getLastEncryptedDice s' p = st_lastDice s' p"
proof -
  from assms obtain s' where ok: "startGame p byte s = Inr s'"
    using startGame_succeeds [of s p byte] by (auto simp: hasActiveRound_def)
  have u: "unat (byte mod 6 + 1) = unat byte mod 6 + 1"
    by (rule dice_unat)
  have "unat byte mod 6 < 6" by simp
  then have "unat byte mod 6 + 1 \<in> {1, 2, 3, 4, 5, 6}"
    by (simp only: insert_iff empty_iff) arith
  with u have m: "unat (byte mod 6 + 1) \<in> {1, 2, 3, 4, 5, 6}"
    by (simp only:)
  have d: "clear (st_lastDice s' p) = byte mod 6 + 1"
    by (rule startGame_Inr(2) [OF ok])
  have "startGame p byte s = Inr s'
       \<and> clear (st_lastDice s' p) = byte mod 6 + 1
       \<and> unat (clear (st_lastDice s' p)) = unat byte mod 6 + 1
       \<and> unat (clear (st_lastDice s' p)) \<in> {1, 2, 3, 4, 5, 6}
       \<and> getLastEncryptedDice s' p = st_lastDice s' p"
    using ok u m by (simp only: d getLastEncryptedDice_def simp_thms)
  then show ?thesis by (rule exI)
qed

theorem startGame_dice_range_witness:
  "\<not> hasActiveRound init 7
   \<and> (\<exists>s'. startGame 7 255 init = Inr s' \<and> clear (st_lastDice s' 7) = 4)"
proof -
  have n: "\<not> hasActiveRound init 7"
    by (simp add: hasActiveRound_def init_def)
  from startGame_dice_range [OF n, of 255] n show ?thesis
    by auto
qed

text \<open>
  Claim C3. \<open>startGame\<close> fails with \<open>ActiveRoundExists\<close> exactly when the caller's round
  flag is set, and fails in no other way. So in every reachable state each player has at
  most one open round (the rounds opened in the log exceed the rounds resolved by one
  when the flag is set, by none otherwise), and a second \<open>startGame\<close> of the same player,
  after any calls that do not include the player's own \<open>submitGuess\<close>, fails.
\<close>

theorem startGame_one_round_at_a_time:
  "(startGame p b s = Inl ActiveRoundExists \<longleftrightarrow> hasActiveRound s p)
   \<and> (\<forall>e. startGame p b s = Inl e \<longrightarrow> e = ActiveRoundExists)
   \<and> (reachable s \<longrightarrow>
        rounds_opened p (events s) =
          rounds_resolved p (events s) + (if hasActiveRound s p then 1 else 0)
        \<and> rounds_opened p (events s) - rounds_resolved p (events s) \<le> 1)
   \<and> (\<forall>s1 cs b'. startGame p b s = Inr s1 \<and> (\<forall>c\<in>set cs. \<not> is_submit_of p c) \<longrightarrow>
        startGame p b' (run cs s1) = Inl ActiveRoundExists)"
proof (intro conjI allI impI)
  show "startGame p b s = Inl ActiveRoundExists \<longleftrightarrow> hasActiveRound s p"
    using startGame_Inl [of p b s ActiveRoundExists] startGame_active [of s p b]
    by (auto simp: hasActiveRound_def)
next
  fix e assume "startGame p b s = Inl e"
  then show "e = ActiveRoundExists" by (simp add: startGame_Inl)
next
  assume "reachable s"
  then have "round_inv s" by (rule reachable_round_inv)
  then show "rounds_opened p (events s) =
          rounds_resolved p (events s) + (if hasActiveRound s p then 1 else 0)"
    by (simp add: round_inv_def hasActiveRound_def)
  then show "rounds_opened p (events s) - rounds_resolved p (events s) \<le> 1"
    by simp
next
  fix s1 cs b'
  assume a: "startGame p b s = Inr s1 \<and> (\<forall>c\<in>set cs. \<not> is_submit_of p c)"
  then have "startGame p b s = Inr s1" by simp
  then have "st_hasActiveRound s1 p" by (rule startGame_Inr(3))
  with a have "st_hasActiveRound (run cs s1) p" by (simp add: active_kept_run)
  then show "startGame p b' (run cs s1) = Inl ActiveRoundExists"
    by (rule startGame_active)
qed

theorem startGame_one_round_at_a_time_witness:
  "reachable (exec (StartGame 7 3) init)
   \<and> hasActiveRound (exec (StartGame 7 3) init) 7
   \<and> startGame 7 3 init = Inr (exec (StartGame 7 3) init)
   \<and> rounds_opened 7 (events (exec (StartGame 7 3) init)) = 1
   \<and> rounds_resolved 7 (events (exec (StartGame 7 3) init)) = 0
   \<and> startGame 7 5 (exec (StartGame 7 3) init) = Inl ActiveRoundExists
   \<and> startGame 7 5 (run [BuyPoints 7 1000000000000000000, StartGame 9 2, SubmitGuess 9 2 True]
        (exec (StartGame 7 3) init)) = Inl ActiveRoundExists"
proof -
  let ?s1 = "exec (StartGame 7 3) init"
  have r: "reachable ?s1"
    by (rule reachable_exec [OF reachable_init])
  have a: "hasActiveRound ?s1 7"
    by (simp add: run_defs)
  obtain s' where g: "startGame 7 3 init = Inr s'"
    using startGame_succeeds [of init 7 3] by (auto simp: init_def)
  then have g1: "startGame 7 3 init = Inr ?s1"
    by (simp add: exec_def)
  have z: "rounds_resolved 7 (events ?s1) = 0"
    by (simp add: run_defs rounds_resolved_def)
  have n: "\<forall>c\<in>set [BuyPoints 7 1000000000000000000, StartGame 9 2, SubmitGuess 9 2 True].
             \<not> is_submit_of 7 c"
    by simp
  note t1 = startGame_one_round_at_a_time [of 7 5 ?s1]
  note t2 = startGame_one_round_at_a_time [of 7 3 init]
  from t1 r a z have "rounds_opened 7 (events ?s1) = 1"
    by simp
  moreover from t1 a have "startGame 7 5 ?s1 = Inl ActiveRoundExists"
    by simp
  moreover from t2 g1 n have "startGame 7 5
      (run [BuyPoints 7 1000000000000000000, StartGame 9 2, SubmitGuess 9 2 True] ?s1)
        = Inl ActiveRoundExists"
    by blast
  ultimately show ?thesis
    using r a g1 z by simp
qed

text \<open>
  Claim C9. \<open>startGame\<close> has no balance precondition: a player whose balance is the
  default encrypted 0 and who has no active round opens a round, whatever byte is drawn,
  and the correct guess for the stored dice then wins the reward, so the balance becomes
  10000 without any purchase.
\<close>

theorem startGame_needs_no_balance:
  assumes "\<not> hasActiveRound s p" and "clear (st_points s p) = 0"
  shows "\<exists>s1. startGame p byte s = Inr s1
       \<and> hasActiveRound s1 p \<and> clear (st_points s1 p) = 0
       \<and> (\<exists>s2. submitGuess p (if 3 < clear (st_lastDice s1 p) then 1 else 2) True s1 = Inr s2
            \<and> clear (st_lastWin s2 p)
            \<and> clear (st_lastReward s2 p) = 10000
            \<and> clear (st_points s2 p) = 10000
            \<and> 0 < unat (clear (st_points s2 p)))"
proof -
  from assms(1) obtain s1 where g: "startGame p byte s = Inr s1"
    using startGame_succeeds [of s p byte] by (auto simp: hasActiveRound_def)
  note f = startGame_Inr [OF g]
  let ?g = "if 3 < clear (st_lastDice s1 p) then 1 else 2 :: uint8"
  from f(3) obtain s2 where r: "submitGuess p ?g True s1 = Inr s2"
    using submitGuess_succeeds [of s1 p ?g] by blast
  note h = submitGuess_Inr [OF r]
  from h(3) have w: "clear (st_lastWin s2 p)" by simp
  with h(4) have rw: "clear (st_lastReward s2 p) = 10000" by (simp add: WIN_REWARD_def)
  with h(5) f(4) assms(2) have pt: "clear (st_points s2 p) = 10000" by simp
  then have "0 < unat (clear (st_points s2 p))" by simp
  with g f(3) f(4) assms(2) r w rw pt show ?thesis
    by (simp add: hasActiveRound_def)
qed

theorem startGame_needs_no_balance_witness:
  "\<not> hasActiveRound init 7 \<and> clear (st_points init 7) = 0 \<and> events init = []
   \<and> (\<exists>s1. startGame 7 3 init = Inr s1
        \<and> (\<exists>s2. submitGuess 7 1 True s1 = Inr s2 \<and> clear (st_points s2 7) = 10000))"
proof -
  have n: "\<not> hasActiveRound init 7" and z: "clear (st_points init 7) = 0"
    and e: "events init = []"
    by (simp_all add: hasActiveRound_def init_def)
  from startGame_needs_no_balance [OF n z, of 3] obtain s1 s2 where
    g: "startGame 7 3 init = Inr s1"
    and r: "submitGuess 7 (if 3 < clear (st_lastDice s1 7) then 1 else 2) True s1 = Inr s2"
    and p: "clear (st_points s2 7) = 10000"
    by blast
  from startGame_Inr(2) [OF g] have "clear (st_lastDice s1 7) = 4" by simp
  with r have "submitGuess 7 1 True s1 = Inr s2" by simp
  with g p n z e show ?thesis by blast
qed

subsection \<open>Buying points\<close>

text \<open>
  Claim C5, as stated: a successful purchase adds exactly the quote to the balance, so
  that repeated purchases accumulate. They do not always: the balance is a 64-bit value.
  After a purchase that brings the balance to \<open>2 ^ 64 - 1\<close>, a second successful purchase
  that quotes 1 point leaves the decrypted balance at 0.
\<close>

theorem buyPoints_accumulate_counterexample:
  "unat (clear (st_points (exec (BuyPoints 7 184467440737095516150000000000000) init) 7))
     = 18446744073709551615
   \<and> quotePoints 10000000000000 = Inr 1
   \<and> buyPoints 7 10000000000000 (exec (BuyPoints 7 184467440737095516150000000000000) init)
       = Inr (exec (BuyPoints 7 10000000000000)
           (exec (BuyPoints 7 184467440737095516150000000000000) init))
   \<and> unat (clear (st_points (exec (BuyPoints 7 10000000000000)
        (exec (BuyPoints 7 184467440737095516150000000000000) init)) 7)) = 0"
  by (simp add: run_defs)

text \<open>
  Claim C5, amended. \<open>buyPoints\<close> succeeds exactly when \<open>quotePoints\<close> of the amount paid
  returns a value greater than 0. When the quote is 0 it fails with
  \<open>InsufficientPayment\<close> and the balances stay as they were. When it succeeds the new
  balance of the caller is the old one plus the quote modulo \<open>2 ^ 64\<close>: exactly the old
  one plus the quote whenever that sum is below \<open>2 ^ 64\<close>. Two purchases in a row add
  both quotes, again modulo \<open>2 ^ 64\<close>, and exactly when the total is below \<open>2 ^ 64\<close>.
\<close>

theorem buyPoints_iff_quote_positive:
  "((\<exists>s'. buyPoints p v s = Inr s') \<longleftrightarrow> (\<exists>q. quotePoints v = Inr q \<and> 0 < unat q))
   \<and> (quotePoints v = Inr 0 \<longrightarrow>
         buyPoints p v s = Inl InsufficientPayment
         \<and> st_points (exec (BuyPoints p v) s) = st_points s)
   \<and> (\<forall>s'. buyPoints p v s = Inr s' \<longrightarrow>
         (\<exists>q. quotePoints v = Inr q
            \<and> unat (clear (st_points s' p)) = (unat (clear (st_points s p)) + unat q) mod 2 ^ 64
            \<and> (unat (clear (st_points s p)) + unat q < 2 ^ 64 \<longrightarrow>
                 unat (clear (st_points s' p)) = unat (clear (st_points s p)) + unat q)))
   \<and> (\<forall>s1 v2 s2. buyPoints p v s = Inr s1 \<and> buyPoints p v2 s1 = Inr s2 \<longrightarrow>
         (\<exists>q1 q2. quotePoints v = Inr q1 \<and> quotePoints v2 = Inr q2
            \<and> unat (clear (st_points s2 p)) =
                (unat (clear (st_points s p)) + unat q1 + unat q2) mod 2 ^ 64
            \<and> (unat (clear (st_points s p)) + unat q1 + unat q2 < 2 ^ 64 \<longrightarrow>
                 unat (clear (st_points s2 p)) =
                   unat (clear (st_points s p)) + unat q1 + unat q2)))"
proof (intro conjI allI impI)
  show "(\<exists>s'. buyPoints p v s = Inr s') \<longleftrightarrow> (\<exists>q. quotePoints v = Inr q \<and> 0 < unat q)"
    using buyPoints_Inr(1) [of p v s] buyPoints_succeeds [of v _ p s]
    by (auto simp: word_less_nat_alt unat_gt_0)
next
  assume "quotePoints v = Inr 0"
  then have "buyPoints p v s = Inl InsufficientPayment" by (rule buyPoints_zero)
  then show "buyPoints p v s = Inl InsufficientPayment"
    and "st_points (exec (BuyPoints p v) s) = st_points s"
    by (simp_all add: exec_def)
next
  fix s' assume "buyPoints p v s = Inr s'"
  from buyPoints_Inr(1) [OF this] obtain q where
    q: "quotePoints v = Inr q" "clear (st_points s' p) = clear (st_points s p) + q"
    by blast
  have m: "unat (clear (st_points s' p)) = (unat (clear (st_points s p)) + unat q) mod 2 ^ 64"
    by (simp only: q(2) unat_add64)
  have x: "unat (clear (st_points s p)) + unat q < 2 ^ 64 \<longrightarrow>
             unat (clear (st_points s' p)) = unat (clear (st_points s p)) + unat q"
    by (simp only: q(2)) (blast intro: unat_add64_exact)
  from q(1) m x show "\<exists>q. quotePoints v = Inr q
            \<and> unat (clear (st_points s' p)) = (unat (clear (st_points s p)) + unat q) mod 2 ^ 64
            \<and> (unat (clear (st_points s p)) + unat q < 2 ^ 64 \<longrightarrow>
                 unat (clear (st_points s' p)) = unat (clear (st_points s p)) + unat q)"
    by blast
next
  fix s1 v2 s2
  assume a: "buyPoints p v s = Inr s1 \<and> buyPoints p v2 s1 = Inr s2"
  then have b1: "buyPoints p v s = Inr s1" and b2: "buyPoints p v2 s1 = Inr s2" by simp_all
  from buyPoints_Inr(1) [OF b1] obtain q1 where
    q1: "quotePoints v = Inr q1" "clear (st_points s1 p) = clear (st_points s p) + q1"
    by blast
  from buyPoints_Inr(1) [OF b2] obtain q2 where
    q2: "quotePoints v2 = Inr q2" "clear (st_points s2 p) = clear (st_points s1 p) + q2"
    by blast
  let ?b = "unat (clear (st_points s p))"
  have e: "clear (st_points s2 p) = clear (st_points s p) + q1 + q2"
    by (simp only: q1(2) q2(2))
  have m: "unat (clear (st_points s2 p)) = (?b + unat q1 + unat q2) mod 2 ^ 64"
    by (simp only: e unat_add64 mod_add_left_eq)
  have x: "?b + unat q1 + unat q2 < 2 ^ 64 \<longrightarrow>
             unat (clear (st_points s2 p)) = ?b + unat q1 + unat q2"
    using m by simp
  from q1(1) q2(1) m x show "\<exists>q1 q2. quotePoints v = Inr q1 \<and> quotePoints v2 = Inr q2
            \<and> unat (clear (st_points s2 p)) = (?b + unat q1 + unat q2) mod 2 ^ 64
            \<and> (?b + unat q1 + unat q2 < 2 ^ 64 \<longrightarrow>
                 unat (clear (st_points s2 p)) = ?b + unat q1 + unat q2)"
    by blast
qed

theorem buyPoints_iff_quote_positive_witness:
  "quotePoints 1000000000000000000 = Inr 100000
   \<and> quotePoints 9999999999999 = Inr 0
   \<and> buyPoints 7 9999999999999 init = Inl InsufficientPayment
   \<and> unat (clear (st_points init 7)) + 100000 + 100000 < 2 ^ 64
   \<and> (\<exists>s1. buyPoints 7 1000000000000000000 init = Inr s1
        \<and> unat (clear (st_points s1 7)) = 100000
        \<and> (\<exists>s2. buyPoints 7 1000000000000000000 s1 = Inr s2
              \<and> unat (clear (st_points s2 7)) = 200000))"
proof -
  note t = buyPoints_iff_quote_positive [of 7 1000000000000000000]
  have z: "unat (clear (st_points init 7)) = 0"
    by (simp add: init_def)
  from t [of init] quote_ether obtain s1 where
    s1: "buyPoints 7 1000000000000000000 init = Inr s1" by auto
  from t [of s1] quote_ether obtain s2 where
    s2: "buyPoints 7 1000000000000000000 s1 = Inr s2" by auto
  from t [of init] s1 quote_ether z have p1: "unat (clear (st_points s1 7)) = 100000"
    by auto
  from t [of init] s1 s2 quote_ether z have p2: "unat (clear (st_points s2 7)) = 200000"
    by fastforce
  from buyPoints_iff_quote_positive [of 7 9999999999999 init] quote_small
  have "buyPoints 7 9999999999999 init = Inl InsufficientPayment" by simp
  with s1 s2 p1 p2 z quote_ether quote_small show ?thesis by simp
qed

subsection \<open>Quoting points\<close>

text \<open>
  Claim C10. \<open>quotePoints\<close> keeps the low 64 bits of the quotient: whenever the product
  fits 256 bits, the value returned is the floor of \<open>weiAmount * 100000 / 10^18\<close> modulo
  \<open>2 ^ 64\<close>; for the amount \<open>(2 ^ 64 + 5) * 10^13\<close> the quotient is \<open>2 ^ 64 + 5\<close> and the
  value returned is 5. When the product does not fit 256 bits the call fails.
\<close>

theorem quotePoints_truncates_to_64_bits:
  "(unat w * 100000 < 2 ^ 256 \<longrightarrow>
      (\<exists>q. quotePoints w = Inr q
         \<and> unat q = (unat w * 100000 div 1000000000000000000) mod 2 ^ 64))
   \<and> (2 ^ 256 \<le> unat w * 100000 \<longrightarrow> quotePoints w = Inl ArithmeticOverflow)
   \<and> unat (184467440737095516210000000000000 :: uint256) * 100000 div 1000000000000000000
        = 2 ^ 64 + 5
   \<and> quotePoints 184467440737095516210000000000000 = Inr 5"
proof (intro conjI impI)
  assume "unat w * 100000 < 2 ^ 256"
  then show "\<exists>q. quotePoints w = Inr q
         \<and> unat q = (unat w * 100000 div 1000000000000000000) mod 2 ^ 64"
    by (rule quotePoints_Inr_unat)
next
  assume "2 ^ 256 \<le> unat w * 100000"
  then have "\<not> unat w * 100000 < 2 ^ 256" by simp
  then show "quotePoints w = Inl ArithmeticOverflow"
    by (simp only: quotePoints_unat if_False)
next
  show "unat (184467440737095516210000000000000 :: uint256) * 100000 div 1000000000000000000
        = 2 ^ 64 + 5"
    by simp
next
  show "quotePoints 184467440737095516210000000000000 = Inr 5"
    by (simp add: quotePoints_def checked_mul_def POINTS_PER_ETH_def ether_def)
qed

theorem quotePoints_truncates_to_64_bits_witness:
  "unat (1000000000000000000 :: uint256) * 100000 < 2 ^ 256
   \<and> quotePoints 1000000000000000000 = Inr 100000
   \<and> 2 ^ 256 \<le> unat (2 ^ 255 :: uint256) * 100000
   \<and> quotePoints (2 ^ 255) = Inl ArithmeticOverflow"
proof -
  have a: "unat (1000000000000000000 :: uint256) * 100000 < 2 ^ 256" by simp
  have b: "2 ^ 256 \<le> unat (2 ^ 255 :: uint256) * 100000" by simp
  from quotePoints_truncates_to_64_bits [of "2 ^ 255"] b
  have "quotePoints (2 ^ 255) = Inl ArithmeticOverflow" by blast
  moreover from quotePoints_truncates_to_64_bits [of 1000000000000000000] a
  obtain q where "quotePoints 1000000000000000000 = Inr q" by blast
  ultimately show ?thesis using a b quote_ether by blast
qed

text \<open>
  Claim C6, as stated: the quote is linear, that is the quote of \<open>2 * x\<close> is twice the
  quote of \<open>x\<close> for every amount representable without overflow. It is not: the quote of
  \<open>5 * 10^12\<close> wei is 0, and the quote of twice that amount is 1.
\<close>

theorem quotePoints_linear_counterexample:
  "unat (2 * 5000000000000 :: uint256) * 100000 < 2 ^ 256
   \<and> quotePoints 5000000000000 = Inr 0
   \<and> quotePoints (2 * 5000000000000) = Inr 1
   \<and> (1 :: uint64) \<noteq> 2 * 0"
  by (simp add: quotePoints_def checked_mul_def POINTS_PER_ETH_def ether_def)

text \<open>
  Claim C6, amended. For every amount \<open>x\<close> such that \<open>2 * x * 100000\<close> fits 256 bits, the
  quote of \<open>x\<close> and the quote of \<open>2 * x\<close> are the floors of \<open>x * 100000 / 10^18\<close> and of
  \<open>2 * x * 100000 / 10^18\<close>, each modulo \<open>2 ^ 64\<close>. When the second floor is below
  \<open>2 ^ 64\<close>, both quotes are the floors themselves, the quote of \<open>2 * x\<close> is twice the
  quote of \<open>x\<close> or one more, as numbers, and it is exactly twice when \<open>x\<close> is a multiple
  of \<open>10^13\<close> wei, the price of one point. The quote of one ether is 100000.
\<close>

theorem quotePoints_floor_doubling:
  assumes "2 * unat x * 100000 < 2 ^ 256"
  shows "\<exists>q q2. quotePoints x = Inr q \<and> quotePoints (2 * x) = Inr q2
       \<and> unat q = (unat x * 100000 div 1000000000000000000) mod 2 ^ 64
       \<and> unat q2 = (2 * unat x * 100000 div 1000000000000000000) mod 2 ^ 64
       \<and> (2 * unat x * 100000 div 1000000000000000000 < 2 ^ 64 \<longrightarrow>
            unat q = unat x * 100000 div 1000000000000000000
            \<and> unat q2 = 2 * unat x * 100000 div 1000000000000000000
            \<and> (unat q2 = 2 * unat q \<or> unat q2 = 2 * unat q + 1)
            \<and> (10000000000000 dvd unat x \<longrightarrow> unat q2 = 2 * unat q))
       \<and> quotePoints 1000000000000000000 = Inr 100000"
proof -
  let ?d = "1000000000000000000 :: nat"
  let ?f = "unat x * 100000 div ?d"
  let ?f2 = "2 * unat x * 100000 div ?d"
  from assms have small: "unat x * 100000 < 2 ^ 256" by simp
  from assms have "2 * unat x < 2 ^ 256" by simp
  then have u2: "unat (2 * x) = 2 * unat x"
    by (simp add: unat_word_ariths)
  from assms have small2: "unat (2 * x) * 100000 < 2 ^ 256"
    by (simp only: u2)
  from quotePoints_Inr_unat [OF small] obtain q where
    q: "quotePoints x = Inr q" "unat q = ?f mod 2 ^ 64" by blast
  from quotePoints_Inr_unat [OF small2] obtain q2 where
    q2: "quotePoints (2 * x) = Inr q2" "unat q2 = ?f2 mod 2 ^ 64"
    by (simp only: u2) blast
  have "?f2 < 2 ^ 64 \<longrightarrow>
            unat q = ?f \<and> unat q2 = ?f2
            \<and> (unat q2 = 2 * unat q \<or> unat q2 = 2 * unat q + 1)
            \<and> (10000000000000 dvd unat x \<longrightarrow> unat q2 = 2 * unat q)"
  proof
    assume b: "?f2 < 2 ^ 64"
    with q2(2) have e2: "unat q2 = ?f2" by (simp only: mod_less)
    from floor_le_double [of "unat x"] b have "?f < 2 ^ 64" by (rule le_less_trans)
    with q(2) have e1: "unat q = ?f" by (simp only: mod_less)
    have "unat q2 = 2 * unat q \<or> unat q2 = 2 * unat q + 1"
      using floor_double_nat [of "unat x"] by (simp only: e1 e2)
    moreover have "10000000000000 dvd unat x \<longrightarrow> unat q2 = 2 * unat q"
    proof
      assume "10000000000000 dvd unat x"
      then have "?f2 = 2 * ?f" by (rule floor_double_exact)
      then show "unat q2 = 2 * unat q" by (simp only: e1 e2)
    qed
    ultimately show "unat q = ?f \<and> unat q2 = ?f2
            \<and> (unat q2 = 2 * unat q \<or> unat q2 = 2 * unat q + 1)
            \<and> (10000000000000 dvd unat x \<longrightarrow> unat q2 = 2 * unat q)"
      using e1 e2 by blast
  qed
  with q q2 quote_ether show ?thesis by blast
qed

theorem quotePoints_floor_doubling_witness:
  "2 * unat (30000000000000 :: uint256) * 100000 < 2 ^ 256
   \<and> 2 * unat (30000000000000 :: uint256) * 100000 div 1000000000000000000 < 2 ^ 64
   \<and> (10000000000000 :: nat) dvd unat (30000000000000 :: uint256)
   \<and> quotePoints 30000000000000 = Inr 3
   \<and> quotePoints (2 * 30000000000000) = Inr 6"
proof -
  have a: "2 * unat (30000000000000 :: uint256) * 100000 < 2 ^ 256" by simp
  have b: "2 * unat (30000000000000 :: uint256) * 100000 div 1000000000000000000 < 2 ^ 64"
    by simp
  have d: "(10000000000000 :: nat) dvd unat (30000000000000 :: uint256)" by simp
  have q: "quotePoints 30000000000000 = Inr 3"
    by (simp add: quotePoints_def checked_mul_def POINTS_PER_ETH_def ether_def)
  from quotePoints_floor_doubling [OF a] obtain q1 q2 where
    e: "quotePoints 30000000000000 = Inr q1" "quotePoints (2 * 30000000000000) = Inr q2"
    and i: "2 * unat (30000000000000 :: uint256) * 100000 div 1000000000000000000 < 2 ^ 64 \<longrightarrow>
            unat q1 = unat (30000000000000 :: uint256) * 100000 div 1000000000000000000
            \<and> unat q2 = 2 * unat (30000000000000 :: uint256) * 100000 div 1000000000000000000
            \<and> (unat q2 = 2 * unat q1 \<or> unat q2 = 2 * unat q1 + 1)
            \<and> (10000000000000 dvd unat (30000000000000 :: uint256) \<longrightarrow> unat q2 = 2 * unat q1)"
    by blast
  from e(1) q have q13: "q1 = 3" by simp
  from i b d have "unat q2 = 2 * unat q1" by blast
  with q13 have "unat q2 = unat (6 :: uint64)" by simp
  then have "q2 = 6" by (simp only: word_unat_eq_iff)
  with e(2) have "quotePoints (2 * 30000000000000) = Inr 6" by (simp only:)
  with a b d q show ?thesis by blast
qed

subsection \<open>The balance across operations\<close>

text \<open>
  Claim C7, as stated: the balance of every account never decreases across an operation.
  It can: the additions are at 64 bits. After a purchase that brings the balance to
  \<open>2 ^ 64 - 1\<close>, winning a round takes the decrypted balance down to 9999.
\<close>

theorem points_nondecreasing_counterexample:
  "unat (clear (st_points
      (run [BuyPoints 7 184467440737095516150000000000000, StartGame 7 3] init) 7))
     = 18446744073709551615
   \<and> unat (clear (st_points (exec (SubmitGuess 7 1 True)
      (run [BuyPoints 7 184467440737095516150000000000000, StartGame 7 3] init)) 7))
     = 9999"
  by (simp add: run_defs)

text \<open>
  Claim C7, amended. Every call either leaves the points handle of an account as it
  was, or replaces it by the sum of the old balance and an amount: the quote of a
  purchase of that account, or the reward of its round (0 or 10000). The sum is modulo
  \<open>2 ^ 64\<close>: the decrypted balance does not decrease whenever the old balance plus the
  amount stays below \<open>2 ^ 64\<close>. No call subtracts.
\<close>

theorem points_change_is_an_addition:
  "st_points (exec c s) a = st_points s a
   \<or> (\<exists>amt. clear (st_points (exec c s) a) = clear (st_points s a) + amt
         \<and> ((\<exists>v. c = BuyPoints a v \<and> quotePoints v = Inr amt)
            \<or> (\<exists>g ok. c = SubmitGuess a g ok \<and> (amt = 0 \<or> amt = WIN_REWARD)))
         \<and> (unat (clear (st_points s a)) + unat amt < 2 ^ 64 \<longrightarrow>
              unat (clear (st_points s a)) \<le> unat (clear (st_points (exec c s) a))))"
proof (cases "body c s")
  case (Inl e)
  then show ?thesis by (simp add: exec_def)
next
  case (Inr s')
  then have e: "exec c s = s'" by (simp add: exec_def)
  show ?thesis
  proof (cases c)
    case (BuyPoints p v)
    with Inr have b: "buyPoints p v s = Inr s'" by simp
    show ?thesis
    proof (cases "a = p")
      case True
      from buyPoints_Inr(1) [OF b] obtain q where
        q: "quotePoints v = Inr q" "clear (st_points s' p) = clear (st_points s p) + q"
        by blast
      have "unat (clear (st_points s a)) + unat q < 2 ^ 64 \<longrightarrow>
              unat (clear (st_points s a)) \<le> unat (clear (st_points s a) + q)"
        using word_add_no_wrap by blast
      with q True e BuyPoints show ?thesis by auto
    next
      case False
      with buyPoints_Inr(2) [OF b] e show ?thesis by simp
    qed
  next
    case (StartGame p b)
    with Inr have "startGame p b s = Inr s'" by simp
    from startGame_Inr(4) [OF this] e show ?thesis by simp
  next
    case (SubmitGuess p g ok)
    with Inr have r: "submitGuess p g ok s = Inr s'" by simp
    show ?thesis
    proof (cases "a = p")
      case True
      let ?amt = "clear (st_lastReward s' p)"
      note f = submitGuess_Inr [OF r]
      from f(4) have k: "?amt = 0 \<or> ?amt = WIN_REWARD" by auto
      have "unat (clear (st_points s a)) + unat ?amt < 2 ^ 64 \<longrightarrow>
              unat (clear (st_points s a)) \<le> unat (clear (st_points s a) + ?amt)"
        using word_add_no_wrap by blast
      with f(5) k True e SubmitGuess show ?thesis by auto
    next
      case False
      with submitGuess_Inr(8) [OF r] e show ?thesis by simp
    qed
  qed
qed

theorem points_change_is_an_addition_witness:
  "clear (st_points init 7) = 0
   \<and> unat (clear (st_points init 7)) + unat (100000 :: uint64) < 2 ^ 64
   \<and> clear (st_points (exec (BuyPoints 7 1000000000000000000) init) 7) = 100000
   \<and> unat (clear (st_points init 7))
        \<le> unat (clear (st_points (exec (BuyPoints 7 1000000000000000000) init) 7))"
proof -
  have z: "clear (st_points init 7) = 0" by (simp add: init_def)
  have n: "st_points (exec (BuyPoints 7 1000000000000000000) init) 7 \<noteq> st_points init 7"
    by (simp add: run_defs)
  from points_change_is_an_addition [of "BuyPoints 7 1000000000000000000" init 7] n
       quote_ether z
  have "clear (st_points (exec (BuyPoints 7 1000000000000000000) init) 7) = 100000"
    by auto
  with z show ?thesis by simp
qed

end
